theory Spec2Isabelle
  imports Main "HOL-Library.Sublist"
begin

section \<open>Text primitives of the streaming generator\<close>

text \<open>
  Python strings are modelled as \<open>string\<close>, one \<open>char\<close> per code point; the model
  covers text whose code points are below 256 (Latin-1). \<open>isspace\<close> is the set of
  characters on which \<open>str.split()\<close> and \<open>str.strip()\<close> break, \<open>lower\<close> is
  \<open>str.lower()\<close> on that range: the letters A to Z and the upper-case letters
  0xC0 to 0xDE (0xD7, the multiplication sign, is not a letter) move up by 32.
\<close>

definition whitespace :: "char list" where
  "whitespace = [CHR 0x09, CHR 0x0A, CHR 0x0B, CHR 0x0C, CHR 0x0D, CHR 0x1C, CHR 0x1D,
                 CHR 0x1E, CHR 0x1F, CHR 0x20, CHR 0x85, CHR 0xA0]"

definition isspace :: "char \<Rightarrow> bool" where
  "isspace c = (c \<in> set whitespace)"

definition upper_chars :: "char list" where
  "upper_chars = ''ABCDEFGHIJKLMNOPQRSTUVWXYZ'' @
       [CHR 0xC0, CHR 0xC1, CHR 0xC2, CHR 0xC3, CHR 0xC4, CHR 0xC5, CHR 0xC6, CHR 0xC7,
        CHR 0xC8, CHR 0xC9, CHR 0xCA, CHR 0xCB, CHR 0xCC, CHR 0xCD, CHR 0xCE, CHR 0xCF,
        CHR 0xD0, CHR 0xD1, CHR 0xD2, CHR 0xD3, CHR 0xD4, CHR 0xD5, CHR 0xD6, CHR 0xD8,
        CHR 0xD9, CHR 0xDA, CHR 0xDB, CHR 0xDC, CHR 0xDD, CHR 0xDE]"

definition lower_chars :: "char list" where
  "lower_chars = ''abcdefghijklmnopqrstuvwxyz'' @
       [CHR 0xE0, CHR 0xE1, CHR 0xE2, CHR 0xE3, CHR 0xE4, CHR 0xE5, CHR 0xE6, CHR 0xE7,
        CHR 0xE8, CHR 0xE9, CHR 0xEA, CHR 0xEB, CHR 0xEC, CHR 0xED, CHR 0xEE, CHR 0xEF,
        CHR 0xF0, CHR 0xF1, CHR 0xF2, CHR 0xF3, CHR 0xF4, CHR 0xF5, CHR 0xF6, CHR 0xF8,
        CHR 0xF9, CHR 0xFA, CHR 0xFB, CHR 0xFC, CHR 0xFD, CHR 0xFE]"

definition lower_char :: "char \<Rightarrow> char" where
  "lower_char c = (case map_of (zip upper_chars lower_chars) c of Some d \<Rightarrow> d | None \<Rightarrow> c)"

definition lower :: "string \<Rightarrow> string" where
  "lower s = map lower_char s"

text \<open>\<open>s.split()\<close>: the maximal runs of non-whitespace characters, in order.\<close>

fun split_from :: "string \<Rightarrow> string \<Rightarrow> string list" where
  "split_from cur [] = (if cur = [] then [] else [cur])"
| "split_from cur (c # cs) =
     (if isspace c
      then (if cur = [] then split_from [] cs else cur # split_from [] cs)
      else split_from (cur @ [c]) cs)"

definition split :: "string \<Rightarrow> string list" where
  "split s = split_from [] s"

text \<open>\<open>s.strip(chars)\<close> and \<open>s.strip()\<close>.\<close>

definition strip_chars :: "string \<Rightarrow> string \<Rightarrow> string" where
  "strip_chars chars s =
     rev (dropWhile (\<lambda>c. c \<in> set chars) (rev (dropWhile (\<lambda>c. c \<in> set chars) s)))"

definition strip :: "string \<Rightarrow> string" where
  "strip s = rev (dropWhile isspace (rev (dropWhile isspace s)))"

text \<open>
  \<open>s.find(sub)\<close> and \<open>s.find(sub, start)\<close>: the first index at which \<open>sub\<close> occurs,
  \<open>None\<close> where Python returns \<open>-1\<close>; \<open>sub in s\<close> is \<open>contains sub s\<close>.
\<close>

fun find_str :: "string \<Rightarrow> string \<Rightarrow> nat option" where
  "find_str sub [] = (if sub = [] then Some 0 else None)"
| "find_str sub (c # cs) =
     (if prefix sub (c # cs) then Some 0 else map_option Suc (find_str sub cs))"

definition find_from :: "string \<Rightarrow> string \<Rightarrow> nat \<Rightarrow> nat option" where
  "find_from sub s start =
     (if length s < start then None
      else map_option (\<lambda>i. start + i) (find_str sub (drop start s)))"

definition contains :: "string \<Rightarrow> string \<Rightarrow> bool" where
  "contains sub s = (find_str sub s \<noteq> None)"

section \<open>live\_teaching.py: the event stream generator\<close>

text \<open>
  Events are the dictionaries the service yields and the manager sends, one constructor
  per \<open>type\<close> tag, with the fields of the dictionary as arguments. A \<open>text\<close> event
  carries its content and whether a \<open>timestamp\<close> field is present (the value is the
  event loop's clock and is not modelled); \<open>pause\<close> carries its duration in
  milliseconds. A dictionary with string values, such as the \<open>data\<close> of a visual cue,
  is an association list.
\<close>

datatype json =
    JStr string
  | JInt int
  | JBool bool
  | JObj "(string \<times> json) list"
  | JArr "json list"

datatype event =
    Start string string
  | Text string bool
  | Emphasis string string
  | VisualCue string "(string \<times> string) list"
  | Pause nat
  | Complete string string
  | Error string
  | Connected string string int
  | UserJoined int
  | UserLeft int
  | TeachingStart string "string option"
  | TeachingEnd string
  | VisualUpdateAnimation "string option" json
  | VisualUpdateImage "string option"
  | VisualLoading string
  | VisualReady "string option" "string option" string
  | SessionPaused string
  | SessionResumed string
  | FeedbackReceived string
  | ChatMessage "string option" string string

subsection \<open>\_check\_emphasis\<close>

definition high_importance :: "string list" where
  "high_importance =
     [''gravity'', ''force'', ''energy'', ''mass'', ''velocity'', ''acceleration'',
      ''important'', ''key'', ''crucial'', ''remember'', ''note'', ''formula'',
      ''equation'', ''theorem'', ''law'', ''principle'', ''concept'']"

definition medium_importance :: "string list" where
  "medium_importance =
     [''example'', ''because'', ''therefore'', ''however'', ''although'',
      ''first'', ''second'', ''third'', ''finally'', ''result'']"

definition check_emphasis :: "string \<Rightarrow> string option" where
  "check_emphasis word =
     (let word_lower = strip_chars ''.,!?'' (lower word)
      in if word_lower \<in> set high_importance then Some ''high''
         else if word_lower \<in> set medium_importance then Some ''medium''
         else None)"

subsection \<open>\_extract\_visual\_cue\<close>

record visual_cue =
  action :: string
  data :: "(string \<times> string) list"

definition visual_triggers :: "(string \<times> visual_cue) list" where
  "visual_triggers =
     [(''falling'',     \<lparr>action = ''animate'', data = [(''type'', ''falling_object'')]\<rparr>),
      (''dropping'',    \<lparr>action = ''animate'', data = [(''type'', ''falling_object'')]\<rparr>),
      (''apple falls'', \<lparr>action = ''animate'', data = [(''type'', ''apple_falling'')]\<rparr>),
      (''pendulum'',    \<lparr>action = ''animate'', data = [(''type'', ''pendulum_swing'')]\<rparr>),
      (''swings'',      \<lparr>action = ''animate'', data = [(''type'', ''pendulum_swing'')]\<rparr>),
      (''wave'',        \<lparr>action = ''animate'', data = [(''type'', ''wave_motion'')]\<rparr>),
      (''oscillate'',   \<lparr>action = ''animate'', data = [(''type'', ''oscillation'')]\<rparr>),
      (''graph'',       \<lparr>action = ''show_graph'', data = [(''type'', ''function_graph'')]\<rparr>),
      (''circle'',      \<lparr>action = ''draw'', data = [(''type'', ''circle'')]\<rparr>),
      (''triangle'',    \<lparr>action = ''draw'', data = [(''type'', ''triangle'')]\<rparr>),
      (''diagram'',     \<lparr>action = ''show_diagram'', data = [(''type'', ''generic'')]\<rparr>)]"

text \<open>The loop over the trigger table: the first trigger that occurs in the sentence.\<close>

fun first_trigger :: "(string \<times> visual_cue) list \<Rightarrow> string \<Rightarrow> visual_cue option" where
  "first_trigger [] sentence_lower = None"
| "first_trigger ((trigger, cue) # rest) sentence_lower =
     (if contains trigger sentence_lower then Some cue
      else first_trigger rest sentence_lower)"

definition visual_marker :: "string \<Rightarrow> visual_cue option" where
  "visual_marker sentence =
     (let sentence_lower = lower sentence
      in case find_str ''[visual:'' sentence_lower of
           None \<Rightarrow> None
         | Some i \<Rightarrow>
             (let start = i + 8
              in case find_from '']'' sentence_lower start of
                   None \<Rightarrow> None
                 | Some end \<Rightarrow>
                     if start < end
                     then Some \<lparr>action = ''show_visual'',
                                data = [(''description'',
                                         strip (take (end - start) (drop start sentence)))]\<rparr>
                     else None))"

definition extract_visual_cue :: "string \<Rightarrow> visual_cue option" where
  "extract_visual_cue sentence =
     (case visual_marker sentence of
        Some cue \<Rightarrow> Some cue
      | None \<Rightarrow> first_trigger visual_triggers (lower sentence))"

subsection \<open>stream\_explanation\<close>

text \<open>
  The three buffers of a run. The Explanation Source is the sequence of what the
  \<open>async for\<close> sees: a chunk with its \<open>delta.content\<close> (possibly absent), or an
  exception with its message; an exception raised when the stream is created is a source
  that starts with \<open>Raise\<close>. Whatever follows the first \<open>Raise\<close> is never read.
\<close>

record gen =
  full_text :: string
  current_sentence :: string
  word_buffer :: string

datatype item = Content "string option" | Raise string

definition gen_init :: gen where
  "gen_init = \<lparr>full_text = [], current_sentence = [], word_buffer = []\<rparr>"

definition word_events :: "string \<Rightarrow> event list" where
  "word_events word =
     Text (word @ '' '') True #
     (case check_emphasis word of
        Some emphasis \<Rightarrow> [Emphasis word emphasis]
      | None \<Rightarrow> [])"

definition has_sentence_mark :: "string \<Rightarrow> bool" where
  "has_sentence_mark s = (CHR ''.'' \<in> set s \<or> CHR ''!'' \<in> set s \<or> CHR ''?'' \<in> set s)"

definition cue_events :: "string \<Rightarrow> event list" where
  "cue_events sentence =
     (case extract_visual_cue sentence of
        Some cue \<Rightarrow> [VisualCue (action cue) (data cue)]
      | None \<Rightarrow> [])"

text \<open>The body of the loop for one chunk whose content is a non-empty string.\<close>

definition process_chunk :: "gen \<Rightarrow> string \<Rightarrow> event list \<times> gen" where
  "process_chunk g content =
     (let ft = full_text g @ content;
          wb = word_buffer g @ content;
          cs = current_sentence g @ content;
          (evs1, wb') =
            (if CHR '' '' \<in> set wb \<or> CHR 0x0A \<in> set wb
             then (let words = split wb
                   in (concat (map word_events (butlast words)),
                       if words = [] then [] else last words))
             else ([], wb));
          (evs2, cs') =
            (if has_sentence_mark cs
             then (cue_events cs @ [Pause 300], [])
             else ([], cs))
      in (evs1 @ evs2, \<lparr>full_text = ft, current_sentence = cs', word_buffer = wb'\<rparr>))"

text \<open>
  The \<open>async for\<close> loop: the events it yields and how it ends, with the exception's
  message or with the buffers at exhaustion.
\<close>

fun stream_loop :: "gen \<Rightarrow> item list \<Rightarrow> event list \<times> (string + gen)" where
  "stream_loop g [] = ([], Inr g)"
| "stream_loop g (Raise m # rest) = ([], Inl m)"
| "stream_loop g (Content None # rest) = stream_loop g rest"
| "stream_loop g (Content (Some content) # rest) =
     (if content = [] then stream_loop g rest
      else (let (evs, g') = process_chunk g content;
                (evs', r) = stream_loop g' rest
            in (evs @ evs', r)))"

definition stream_explanation :: "string \<Rightarrow> string option \<Rightarrow> item list \<Rightarrow> event list" where
  "stream_explanation question subject source =
     Start question ''teaching'' #
     (case stream_loop gen_init source of
        (evs, Inr g) \<Rightarrow>
          evs @ (if word_buffer g \<noteq> [] then [Text (word_buffer g) False] else [])
              @ [Complete (full_text g) ''finished'']
      | (evs, Inl m) \<Rightarrow> evs @ [Error m])"

section \<open>websocket\_handler.py: the session registry\<close>

text \<open>
  A listener is the identity of a WebSocket object, a session identifier is a string.
  The three tables of \<open>LiveClassroomManager\<close> are maps. A session's listener set is a
  list without duplicates: \<open>add\<close> appends a new element, \<open>discard\<close> removes it, and
  a \<open>for\<close> loop over the set visits the list in order. \<open>sent\<close> is not a field of the
  class: it records every call of \<open>send_json\<close>, in order, with the listener it was
  called on, whether the call returned or raised.
\<close>

type_synonym ws = nat
type_synonym sid = string

record user_info =
  user_id :: "string option"
  session_id :: sid
  joined_at :: string

record session =
  created_at :: string
  current_question :: "string option"
  is_teaching :: bool
  participants :: int
  is_paused :: "bool option"

record state =
  active_sessions :: "sid \<rightharpoonup> ws list"
  session_states :: "sid \<rightharpoonup> session"
  user_data :: "ws \<rightharpoonup> user_info"
  sent :: "(ws \<times> event) list"


text \<open>
  What the manager does not decide is the environment of a call: on which listeners
  \<open>accept\<close> and \<open>send_json\<close> raise, the clock reading, the Explanation Source and
  the visual generator (\<open>None\<close> where \<open>generate_visual\<close> raises).
\<close>

record env =
  accept_fails :: "ws \<Rightarrow> bool"
  send_fails :: "ws \<Rightarrow> bool"
  utcnow :: string
  source :: "item list"
  generate_visual :: "string \<Rightarrow> string \<Rightarrow> (string \<rightharpoonup> string) option"

text \<open>
  A call returns the new state (\<open>Inr\<close>), or raises and leaves the tables as they were
  at the raise (\<open>Inl\<close>); \<open>None\<close> is a call that has not returned within the given
  depth of nested \<open>disconnect\<close> calls.
\<close>

datatype error = KeyError | ConnectionError | CollaboratorError

type_synonym outcome = "((error \<times> state) + state) option"

definition and_then :: "outcome \<Rightarrow> (state \<Rightarrow> outcome) \<Rightarrow> outcome" where
  "and_then r f = (case r of Some (Inr st) \<Rightarrow> f st | other \<Rightarrow> other)"

definition send_json :: "env \<Rightarrow> ws \<Rightarrow> event \<Rightarrow> state \<Rightarrow> outcome" where
  "send_json e websocket message st =
     (let st' = st\<lparr>sent := sent st @ [(websocket, message)]\<rparr>
      in if send_fails e websocket then Some (Inl (ConnectionError, st')) else Some (Inr st'))"

subsection \<open>disconnect and broadcast\_to\_session\<close>

function disconnect :: "nat \<Rightarrow> env \<Rightarrow> ws \<Rightarrow> state \<Rightarrow> outcome"
  and broadcast_to_session :: "nat \<Rightarrow> env \<Rightarrow> sid \<Rightarrow> event \<Rightarrow> ws option \<Rightarrow> state \<Rightarrow> outcome"
  and disconnect_all :: "nat \<Rightarrow> env \<Rightarrow> ws list \<Rightarrow> state \<Rightarrow> outcome"
where
  "disconnect n e websocket st =
     (case user_data st websocket of
        None \<Rightarrow> Some (Inr st)
      | Some info \<Rightarrow>
          (let sid = session_id info
           in case (case active_sessions st sid of
                      None \<Rightarrow> Some (Inr st)
                    | Some listeners \<Rightarrow>
                        (let remaining = removeAll websocket listeners;
                             st1 = st\<lparr>active_sessions := (active_sessions st)(sid \<mapsto> remaining)\<rparr>
                         in case session_states st1 sid of
                              None \<Rightarrow> Some (Inl (KeyError, st1))
                            | Some ss \<Rightarrow>
                                (let count = participants ss - 1;
                                     st2 = st1\<lparr>session_states :=
                                       (session_states st1)(sid \<mapsto> ss\<lparr>participants := count\<rparr>)\<rparr>
                                 in if remaining = []
                                    then Some (Inr (st2\<lparr>active_sessions := (active_sessions st2)(sid := None),
                                                       session_states := (session_states st2)(sid := None)\<rparr>))
                                    else (case n of
                                            0 \<Rightarrow> None
                                          | Suc m \<Rightarrow> broadcast_to_session m e sid (UserLeft count) None st2))))
              of
                Some (Inr st3) \<Rightarrow>
                  (case user_data st3 websocket of
                     None \<Rightarrow> Some (Inl (KeyError, st3))
                   | Some _ \<Rightarrow> Some (Inr (st3\<lparr>user_data := (user_data st3)(websocket := None)\<rparr>)))
              | r \<Rightarrow> r))"
| "broadcast_to_session n e sid message exclude st =
     (case active_sessions st sid of
        None \<Rightarrow> Some (Inr st)
      | Some listeners \<Rightarrow>
          (let targets = filter (\<lambda>w. Some w \<noteq> exclude) listeners;
               st1 = st\<lparr>sent := sent st @ map (\<lambda>w. (w, message)) targets\<rparr>;
               disconnected = filter (send_fails e) targets
           in disconnect_all n e disconnected st1))"
| "disconnect_all n e [] st = Some (Inr st)"
| "disconnect_all n e (w # rest) st =
     (case disconnect n e w st of
        Some (Inr st1) \<Rightarrow> disconnect_all n e rest st1
      | r \<Rightarrow> r)"
  by pat_completeness auto
termination
  by (relation "measures
        [\<lambda>x. case x of
                Inl (n, _) \<Rightarrow> n
              | Inr (Inl (n, _)) \<Rightarrow> n
              | Inr (Inr (n, _)) \<Rightarrow> n,
         \<lambda>x. case x of
                Inl _ \<Rightarrow> 0
              | Inr (Inl (n, e, sid, m, x, st)) \<Rightarrow>
                  2 + length (case active_sessions st sid of None \<Rightarrow> [] | Some ls \<Rightarrow> ls)
              | Inr (Inr (n, e, ws, st)) \<Rightarrow> 1 + length ws]")
     (auto intro: le_imp_less_Suc order_trans [OF length_filter_le])

declare disconnect.simps [simp del] broadcast_to_session.simps [simp del]

subsection \<open>connect\<close>

definition new_session :: "env \<Rightarrow> session" where
  "new_session e = \<lparr>created_at = utcnow e, current_question = None, is_teaching = False,
                    participants = 0, is_paused = None\<rparr>"


subsection \<open>The command handlers\<close>

text \<open>
  An inbound message is the JSON object the listener sent, with string fields: a field
  that is absent (or \<open>null\<close>) is \<open>None\<close>. \<open>get_or\<close> is \<open>message.get(key, default)\<close>.
  \<open>update_session\<close> is an assignment \<open>self.session_states[session_id][key] = value\<close>,
  which raises when the session has no entry.
\<close>

type_synonym message = "string \<rightharpoonup> string"

definition get_or :: "message \<Rightarrow> string \<Rightarrow> string \<Rightarrow> string" where
  "get_or message key dflt = (case message key of None \<Rightarrow> dflt | Some v \<Rightarrow> v)"

definition update_session :: "sid \<Rightarrow> (session \<Rightarrow> session) \<Rightarrow> state \<Rightarrow> outcome" where
  "update_session sid f st =
     (case session_states st sid of
        None \<Rightarrow> Some (Inl (KeyError, st))
      | Some ss \<Rightarrow> Some (Inr (st\<lparr>session_states := (session_states st)(sid \<mapsto> f ss)\<rparr>)))"

definition animations :: "(string \<times> json) list" where
  "animations =
     [(''falling_object'', JObj
         [(''name'', JStr ''Falling Object''), (''duration'', JInt 2000),
          (''objects'', JArr [JObj [(''type'', JStr ''circle''),
              (''start'', JObj [(''x'', JInt 50), (''y'', JInt 10)]),
              (''end'', JObj [(''x'', JInt 50), (''y'', JInt 90)])]]),
          (''easing'', JStr ''easeInQuad'')]),
      (''apple_falling'', JObj
         [(''name'', JStr ''Apple Falling''), (''duration'', JInt 2000),
          (''objects'', JArr [JObj [(''type'', JStr ''apple''),
              (''start'', JObj [(''x'', JInt 50), (''y'', JInt 20)]),
              (''end'', JObj [(''x'', JInt 50), (''y'', JInt 85)])]]),
          (''easing'', JStr ''easeInQuad''), (''show_force_arrow'', JBool True)]),
      (''pendulum_swing'', JObj
         [(''name'', JStr ''Pendulum''), (''duration'', JInt 3000), (''type'', JStr ''pendulum''),
          (''pivot'', JObj [(''x'', JInt 50), (''y'', JInt 10)]),
          (''length'', JInt 60), (''amplitude'', JInt 45)]),
      (''wave_motion'', JObj
         [(''name'', JStr ''Wave''), (''duration'', JInt 4000), (''type'', JStr ''sine_wave''),
          (''amplitude'', JInt 30), (''wavelength'', JInt 50), (''speed'', JInt 2)]),
      (''oscillation'', JObj
         [(''name'', JStr ''Oscillation''), (''duration'', JInt 3000), (''type'', JStr ''spring''),
          (''equilibrium'', JInt 50), (''amplitude'', JInt 30)])]"

definition get_animation_data :: "string option \<Rightarrow> json" where
  "get_animation_data anim_type =
     (case (case anim_type of None \<Rightarrow> None | Some t \<Rightarrow> map_of animations t) of
        Some d \<Rightarrow> d
      | None \<Rightarrow> JObj [(''name'', JStr ''Generic''), (''duration'', JInt 2000)])"

text \<open>\<open>_process_visual_cue\<close>, on the \<open>action\<close> and the \<open>data\<close> of the cue event.\<close>

definition process_visual_cue :: "string \<Rightarrow> (string \<times> string) list \<Rightarrow> event option" where
  "process_visual_cue act dat =
     (if act = ''animate''
      then (let anim_type = map_of dat ''type''
            in Some (VisualUpdateAnimation anim_type (get_animation_data anim_type)))
      else if act = ''show_visual''
      then Some (VisualUpdateImage (map_of dat ''description''))
      else None)"

text \<open>
  The \<open>async for\<close> loop of \<open>handle_question\<close> over the events of the run: each event
  is broadcast, and a visual cue is followed by the broadcast of what
  \<open>_process_visual_cue\<close> makes of it, if anything.
\<close>

fun stream_events :: "nat \<Rightarrow> env \<Rightarrow> sid \<Rightarrow> event list \<Rightarrow> state \<Rightarrow> outcome" where
  "stream_events n e sid [] st = Some (Inr st)"
| "stream_events n e sid (ev # rest) st =
     and_then (broadcast_to_session n e sid ev None st) (\<lambda>st1.
     and_then (case ev of
                 VisualCue act dat \<Rightarrow>
                   (case process_visual_cue act dat of
                      Some visual_event \<Rightarrow> broadcast_to_session n e sid visual_event None st1
                    | None \<Rightarrow> Some (Inr st1))
               | _ \<Rightarrow> Some (Inr st1)) (\<lambda>st2.
     stream_events n e sid rest st2))"

definition handle_question :: "nat \<Rightarrow> env \<Rightarrow> ws \<Rightarrow> sid \<Rightarrow> message \<Rightarrow> state \<Rightarrow> outcome" where
  "handle_question n e websocket sid message st =
     (let question = get_or message ''question'' [];
          subject = message ''subject''
      in if question = []
         then send_json e websocket (Error ''Question is required'') st
         else
           and_then (update_session sid (\<lambda>ss. ss\<lparr>current_question := Some question\<rparr>) st) (\<lambda>st1.
           and_then (update_session sid (\<lambda>ss. ss\<lparr>is_teaching := True\<rparr>) st1) (\<lambda>st2.
           and_then (broadcast_to_session n e sid (TeachingStart question subject) None st2) (\<lambda>st3.
           case and_then (stream_events n e sid
                            (stream_explanation question subject (source e)) st3) (\<lambda>st4.
                and_then (update_session sid (\<lambda>ss. ss\<lparr>is_teaching := False\<rparr>) st4) (\<lambda>st5.
                broadcast_to_session n e sid
                  (TeachingEnd ''Explanation complete. Feel free to ask follow-up questions!'')
                  None st5))
           of
             Some (Inl (err, st6)) \<Rightarrow>
               and_then (broadcast_to_session n e sid
                           (Error ''An error occurred during teaching'') None st6)
                 (update_session sid (\<lambda>ss. ss\<lparr>is_teaching := False\<rparr>))
           | r \<Rightarrow> r))))"

definition handle_visual_request :: "nat \<Rightarrow> env \<Rightarrow> ws \<Rightarrow> sid \<Rightarrow> message \<Rightarrow> state \<Rightarrow> outcome" where
  "handle_visual_request n e websocket sid message st =
     (let visual_type = get_or message ''visual_type'' ''animation'';
          concept = get_or message ''concept'' []
      in and_then (broadcast_to_session n e sid
                     (VisualLoading (''Generating '' @ visual_type @ '' for '' @ concept @ ''...''))
                     None st) (\<lambda>st1.
         case (case generate_visual e concept visual_type of
                 None \<Rightarrow> Some (Inl (CollaboratorError, st1))
               | Some result \<Rightarrow>
                   broadcast_to_session n e sid
                     (VisualReady (result ''visual_type'') (result ''url'') concept) None st1)
         of
           Some (Inl (err, st2)) \<Rightarrow>
             send_json e websocket (Error ''Failed to generate visual'') st2
         | r \<Rightarrow> r))"

definition handle_pause :: "nat \<Rightarrow> env \<Rightarrow> sid \<Rightarrow> state \<Rightarrow> outcome" where
  "handle_pause n e sid st =
     and_then (update_session sid (\<lambda>ss. ss\<lparr>is_paused := Some True\<rparr>) st)
       (broadcast_to_session n e sid (SessionPaused ''Session paused'') None)"

definition handle_resume :: "nat \<Rightarrow> env \<Rightarrow> sid \<Rightarrow> state \<Rightarrow> outcome" where
  "handle_resume n e sid st =
     and_then (update_session sid (\<lambda>ss. ss\<lparr>is_paused := Some False\<rparr>) st)
       (broadcast_to_session n e sid (SessionResumed ''Session resumed'') None)"

definition handle_feedback :: "env \<Rightarrow> ws \<Rightarrow> message \<Rightarrow> state \<Rightarrow> outcome" where
  "handle_feedback e websocket message st =
     send_json e websocket (FeedbackReceived ''Thank you for your feedback!'') st"

definition handle_chat :: "nat \<Rightarrow> env \<Rightarrow> ws \<Rightarrow> sid \<Rightarrow> message \<Rightarrow> state \<Rightarrow> outcome" where
  "handle_chat n e websocket sid message st =
     (let uid = (case user_data st websocket of
                   None \<Rightarrow> Some ''anonymous''
                 | Some info \<Rightarrow> user_id info);
          chat_message = get_or message ''message'' []
      in broadcast_to_session n e sid (ChatMessage uid chat_message (utcnow e)) None st)"

definition handle_message :: "nat \<Rightarrow> env \<Rightarrow> ws \<Rightarrow> message \<Rightarrow> state \<Rightarrow> outcome" where
  "handle_message n e websocket message st =
     (case user_data st websocket of
        None \<Rightarrow> Some (Inr st)
      | Some info \<Rightarrow>
          (let sid = session_id info;
               msg_type = message ''type''
           in if msg_type = Some ''ask_question'' then handle_question n e websocket sid message st
              else if msg_type = Some ''request_visual''
                then handle_visual_request n e websocket sid message st
              else if msg_type = Some ''pause'' then handle_pause n e sid st
              else if msg_type = Some ''resume'' then handle_resume n e sid st
              else if msg_type = Some ''feedback'' then handle_feedback e websocket message st
              else if msg_type = Some ''chat'' then handle_chat n e websocket sid message st
              else Some (Inr st)))"

section \<open>Example inputs\<close>

text \<open>
  An environment in which every channel works and the source streams a short answer, one
  in which the channel of listener 1 is broken, and a registry holding the session
  "abc12345" with the listeners 1 and 2.
\<close>

definition quiet_env :: env where
  "quiet_env = \<lparr>accept_fails = (\<lambda>w. False), send_fails = (\<lambda>w. False),
                 utcnow = ''2024-01-01T00:00:00'',
                 source = [Content (Some ''Gravity''), Content (Some '' pulls.'')],
                 generate_visual = (\<lambda>concept visual_type. None)\<rparr>"

definition broken_env :: env where
  "broken_env = quiet_env\<lparr>send_fails := (\<lambda>w. w = 1)\<rparr>"

definition member_info :: user_info where
  "member_info = \<lparr>user_id = None, session_id = ''abc12345'',
                   joined_at = ''2024-01-01T00:00:00''\<rparr>"

definition classroom :: state where
  "classroom =
     \<lparr>active_sessions = [''abc12345'' \<mapsto> [1, 2]],
      session_states = [''abc12345'' \<mapsto> (new_session quiet_env)\<lparr>participants := 2\<rparr>],
      user_data = [1 \<mapsto> member_info, 2 \<mapsto> member_info],
      sent = []\<rparr>"

section \<open>Notions used in the statements\<close>

text \<open>
  What a source delivers before it fails, if it fails; the partial word of a text, the
  characters after its last whitespace; the kinds of event; a buffer that ends in a
  sentence mark; the exception a call raised and the state a call returned, if any.
\<close>

fun source_failure :: "item list \<Rightarrow> string option" where
  "source_failure [] = None"
| "source_failure (Raise m # rest) = Some m"
| "source_failure (Content c # rest) = source_failure rest"

fun delivered_text :: "item list \<Rightarrow> string" where
  "delivered_text [] = []"
| "delivered_text (Raise m # rest) = []"
| "delivered_text (Content None # rest) = delivered_text rest"
| "delivered_text (Content (Some s) # rest) = s @ delivered_text rest"

definition partial_word :: "string \<Rightarrow> string" where
  "partial_word t = rev (takeWhile (\<lambda>c. \<not> isspace c) (rev t))"

fun is_terminal :: "event \<Rightarrow> bool" where
  "is_terminal (Complete t s) = True"
| "is_terminal (Error m) = True"
| "is_terminal _ = False"

fun is_start :: "event \<Rightarrow> bool" where
  "is_start (Start q s) = True"
| "is_start _ = False"

definition ends_in_sentence_mark :: "string \<Rightarrow> bool" where
  "ends_in_sentence_mark s = (s \<noteq> [] \<and> last s \<in> set ''.!?'')"

definition raised :: "outcome \<Rightarrow> error option" where
  "raised r = (case r of Some (Inl (err, st)) \<Rightarrow> Some err | _ \<Rightarrow> None)"

definition lone_classroom :: state where
  "lone_classroom =
     \<lparr>active_sessions = [''abc12345'' \<mapsto> [1]],
      session_states = [''abc12345'' \<mapsto> (new_session quiet_env)\<lparr>participants := 1\<rparr>],
      user_data = [1 \<mapsto> member_info],
      sent = []\<rparr>"

definition returned :: "outcome \<Rightarrow> state option" where
  "returned r = (case r of Some (Inr st) \<Rightarrow> Some st | _ \<Rightarrow> None)"

definition graph_env :: env where
  "graph_env = quiet_env\<lparr>source := [Content (Some ''Look at the graph.'')]\<rparr>"

subsection \<open>A well-formed registry\<close>

text \<open>
  \<open>members\<close> is the listener set of a session, empty when the session has no entry.
  \<open>sessions_ok\<close> is the invariant of the session tables: both tables have the same
  sessions, no session has an empty listener set, and the participant count of a session
  is the size of its listener set. \<open>registry_ok P\<close> adds the user-data table: every
  listener of a session is registered with that session, and every registered listener
  is in the listener set of its session, apart from the listeners in \<open>P\<close>, which are
  in the middle of \<open>disconnect\<close>: already discarded from their session, not yet deleted
  from the user-data table.
\<close>

definition members :: "state \<Rightarrow> sid \<Rightarrow> ws list" where
  "members st sid = (case active_sessions st sid of None \<Rightarrow> [] | Some ls \<Rightarrow> ls)"

definition sessions_ok :: "state \<Rightarrow> bool" where
  "sessions_ok st \<longleftrightarrow>
     dom (session_states st) = dom (active_sessions st) \<and>
     (\<forall>sid ls. active_sessions st sid = Some ls \<longrightarrow>
        ls \<noteq> [] \<and> distinct ls \<and>
        (\<exists>ss. session_states st sid = Some ss \<and> participants ss = int (card (set ls))))"

definition registry_ok :: "ws set \<Rightarrow> state \<Rightarrow> bool" where
  "registry_ok P st \<longleftrightarrow>
     sessions_ok st \<and>
     (\<forall>sid ls w. active_sessions st sid = Some ls \<longrightarrow> w \<in> set ls \<longrightarrow>
        w \<notin> P \<and> (\<exists>info. user_data st w = Some info \<and> session_id info = sid)) \<and>
     (\<forall>w info. user_data st w = Some info \<longrightarrow> w \<notin> P \<longrightarrow>
        (\<exists>ls. active_sessions st (session_id info) = Some ls \<and> w \<in> set ls)) \<and>
     P \<subseteq> dom (user_data st)"

text \<open>
  What a call that only disconnects listeners may change, with \<open>K\<close> the listeners it
  was asked to disconnect: registrations and listener sets only shrink, a listener
  outside \<open>K\<close> whose channel works keeps its registration and its session, and all
  that is sent is \<open>user_left\<close> notifications.
\<close>

fun is_user_left :: "event \<Rightarrow> bool" where
  "is_user_left (UserLeft c) = True"
| "is_user_left _ = False"

definition shrinks :: "env \<Rightarrow> ws set \<Rightarrow> state \<Rightarrow> state \<Rightarrow> bool" where
  "shrinks e K st st' \<longleftrightarrow>
     (\<forall>x. user_data st' x = None \<or> user_data st' x = user_data st x) \<and>
     (\<forall>s. set (members st' s) \<subseteq> set (members st s)) \<and>
     (\<forall>x. x \<notin> K \<longrightarrow> \<not> send_fails e x \<longrightarrow>
        user_data st' x = user_data st x \<and>
        (\<forall>s. x \<in> set (members st s) \<longrightarrow> x \<in> set (members st' s))) \<and>
     (\<exists>rest. sent st' = sent st @ rest \<and> (\<forall>p\<in>set rest. is_user_left (snd p)))"

subsection \<open>Sequences of connect and disconnect\<close>









subsection \<open>What a listener is sent during a run\<close>

text \<open>
  The descriptor a \<open>visual_update\<close> is expected to carry for each animation type, as
  the table of \<open>_get_animation_data\<close> lists them, and the generic one for any other
  type; the \<open>visual_update\<close> events expected after an event: one for a visual cue with
  the action "animate" or "show\_visual", none otherwise; and the events a listener was
  sent, \<open>user_left\<close> notifications apart.
\<close>

definition expected_descriptor :: "string option \<Rightarrow> json" where
  "expected_descriptor anim_type =
     (if anim_type = Some ''falling_object'' then JObj
         [(''name'', JStr ''Falling Object''), (''duration'', JInt 2000),
          (''objects'', JArr [JObj [(''type'', JStr ''circle''),
              (''start'', JObj [(''x'', JInt 50), (''y'', JInt 10)]),
              (''end'', JObj [(''x'', JInt 50), (''y'', JInt 90)])]]),
          (''easing'', JStr ''easeInQuad'')]
      else if anim_type = Some ''apple_falling'' then JObj
         [(''name'', JStr ''Apple Falling''), (''duration'', JInt 2000),
          (''objects'', JArr [JObj [(''type'', JStr ''apple''),
              (''start'', JObj [(''x'', JInt 50), (''y'', JInt 20)]),
              (''end'', JObj [(''x'', JInt 50), (''y'', JInt 85)])]]),
          (''easing'', JStr ''easeInQuad''), (''show_force_arrow'', JBool True)]
      else if anim_type = Some ''pendulum_swing'' then JObj
         [(''name'', JStr ''Pendulum''), (''duration'', JInt 3000), (''type'', JStr ''pendulum''),
          (''pivot'', JObj [(''x'', JInt 50), (''y'', JInt 10)]),
          (''length'', JInt 60), (''amplitude'', JInt 45)]
      else if anim_type = Some ''wave_motion'' then JObj
         [(''name'', JStr ''Wave''), (''duration'', JInt 4000), (''type'', JStr ''sine_wave''),
          (''amplitude'', JInt 30), (''wavelength'', JInt 50), (''speed'', JInt 2)]
      else if anim_type = Some ''oscillation'' then JObj
         [(''name'', JStr ''Oscillation''), (''duration'', JInt 3000), (''type'', JStr ''spring''),
          (''equilibrium'', JInt 50), (''amplitude'', JInt 30)]
      else JObj [(''name'', JStr ''Generic''), (''duration'', JInt 2000)])"

definition followups :: "event \<Rightarrow> event list" where
  "followups ev =
     (case ev of
        VisualCue act dat \<Rightarrow>
          if act = ''animate''
          then [VisualUpdateAnimation (map_of dat ''type'') (expected_descriptor (map_of dat ''type''))]
          else if act = ''show_visual'' then [VisualUpdateImage (map_of dat ''description'')]
          else []
      | _ \<Rightarrow> [])"

definition received :: "ws \<Rightarrow> state \<Rightarrow> event list" where
  "received w st = map snd (filter (\<lambda>p. fst p = w \<and> \<not> is_user_left (snd p)) (sent st))"

section \<open>Disconnecting and commands of listeners that are not registered\<close>

lemma disconnect_not_registered:
  "user_data st websocket = None \<Longrightarrow> disconnect n e websocket st = Some (Inr st)"
  by (simp add: disconnect.simps)

lemma disconnect_unregisters:
  assumes "disconnect n e websocket st = Some (Inr st')"
  shows "user_data st' websocket = None"
  using assms
  by (auto simp: disconnect.simps Let_def split: option.splits sum.splits if_splits nat.splits)

lemma disconnect_idempotent:
  "disconnect n e websocket st = Some (Inr st') \<Longrightarrow> disconnect m e' websocket st' = Some (Inr st')"
  by (rule disconnect_not_registered) (rule disconnect_unregisters)

text \<open>
  C9. \<open>disconnect\<close> on a listener that has no entry in the user-data table returns
  normally, whatever the depth allowed and whatever channels are broken, and its result
  is the state it was given: no table has changed and nothing was sent.
\<close>

theorem disconnect_unregistered_noop:
  assumes "user_data st websocket = None"
  shows "disconnect n e websocket st = Some (Inr st)"
  using assms by (simp add: disconnect.simps)

theorem disconnect_unregistered_noop_witness:
  "user_data classroom 3 = None \<and> disconnect 0 broken_env 3 classroom = Some (Inr classroom)"
proof -
  have h: "user_data classroom 3 = None"
    by (simp add: classroom_def)
  show ?thesis
    using h disconnect_unregistered_noop [OF h, of 0 broken_env] by simp
qed

text \<open>
  C10. A command from a listener that has no entry in the user-data table makes
  \<open>handle_message\<close> return at once with the state it was given, for every message:
  nothing is sent and no table changes.
\<close>

theorem handle_message_unregistered:
  assumes "user_data st websocket = None"
  shows "handle_message n e websocket message st = Some (Inr st)"
  using assms by (simp add: handle_message_def)

theorem handle_message_unregistered_witness:
  "user_data classroom 3 = None \<and>
   handle_message 0 broken_env 3 [''type'' \<mapsto> ''ask_question'', ''question'' \<mapsto> ''What is gravity?'']
     classroom = Some (Inr classroom)"
proof -
  have h: "user_data classroom 3 = None"
    by (simp add: classroom_def)
  show ?thesis
    using h handle_message_unregistered [OF h, of 0 broken_env] by simp
qed

section \<open>An empty question\<close>

text \<open>
  C8. An \<open>ask_question\<close> command of a registered listener whose question is empty (or
  absent) calls \<open>send_json\<close> once, on the asker, with the error event, and does
  nothing else: the three tables are the ones it was given, and no other listener is
  sent anything. The call returns unless the asker's own channel raises.
\<close>

theorem empty_question_error_only:
  assumes "user_data st websocket = Some info"
    and "message ''type'' = Some ''ask_question''"
    and "get_or message ''question'' [] = []"
  shows "handle_message n e websocket message st =
           (if send_fails e websocket
            then Some (Inl (ConnectionError,
                   st\<lparr>sent := sent st @ [(websocket, Error ''Question is required'')]\<rparr>))
            else Some (Inr (st\<lparr>sent := sent st @ [(websocket, Error ''Question is required'')]\<rparr>)))"
  using assms by (simp add: handle_message_def handle_question_def send_json_def)

theorem empty_question_error_only_witness:
  "user_data classroom 2 = Some member_info \<and>
   [''type'' \<mapsto> ''ask_question'', ''question'' \<mapsto> []] ''type'' = Some ''ask_question'' \<and>
   get_or [''type'' \<mapsto> ''ask_question'', ''question'' \<mapsto> []] ''question'' [] = [] \<and>
   handle_message 0 broken_env 2 [''type'' \<mapsto> ''ask_question'', ''question'' \<mapsto> []] classroom =
     Some (Inr (classroom\<lparr>sent := [(2, Error ''Question is required'')]\<rparr>))"
proof -
  have h1: "user_data classroom 2 = Some member_info"
    by (simp add: classroom_def)
  have h2: "[''type'' \<mapsto> ''ask_question'', ''question'' \<mapsto> []] ''type'' = Some ''ask_question''"
    by simp
  have h3: "get_or [''type'' \<mapsto> ''ask_question'', ''question'' \<mapsto> []] ''question'' [] = []"
    by (simp add: get_or_def)
  have "send_fails broken_env 2 = False" "sent classroom = []"
    by (simp_all add: broken_env_def classroom_def)
  then show ?thesis
    using h1 h2 h3 empty_question_error_only [OF h1 h2 h3, of 0 broken_env] by simp
qed

section \<open>The event sequence of a streaming run\<close>

lemma word_events_plain:
  "filter is_terminal (word_events w) = []" "filter is_start (word_events w) = []"
  by (simp_all add: word_events_def split: option.splits)

lemma words_plain:
  "filter is_terminal (concat (map word_events ws)) = []"
  "filter is_start (concat (map word_events ws)) = []"
  by (induction ws) (simp_all add: word_events_plain)

lemma cue_events_plain:
  "filter is_terminal (cue_events s) = []" "filter is_start (cue_events s) = []"
  by (simp_all add: cue_events_def split: option.splits)

lemma process_chunk_plain:
  "filter is_terminal (fst (process_chunk g c)) = []"
  "filter is_start (fst (process_chunk g c)) = []"
  by (simp_all add: process_chunk_def Let_def words_plain cue_events_plain split: prod.splits)

lemma process_chunk_full_text:
  "full_text (snd (process_chunk g c)) = full_text g @ c"
  by (simp add: process_chunk_def Let_def split: prod.splits)

lemma stream_loop_plain:
  "filter is_terminal (fst (stream_loop g src)) = [] \<and> filter is_start (fst (stream_loop g src)) = []"
proof (induction g src rule: stream_loop.induct)
  case (4 g content rest)
  show ?case
  proof (cases "content = []")
    case True
    with 4 show ?thesis by simp
  next
    case False
    obtain evs g' where pc: "process_chunk g content = (evs, g')" by (cases "process_chunk g content")
    obtain evs' r where sl: "stream_loop g' rest = (evs', r)" by (cases "stream_loop g' rest")
    from pc have "filter is_terminal evs = []" "filter is_start evs = []"
      using process_chunk_plain [of g content] by simp_all
    moreover from 4(2) [OF False pc [symmetric] refl] sl
    have "filter is_terminal evs' = []" "filter is_start evs' = []" by simp_all
    ultimately show ?thesis using False pc sl by simp
  qed
qed simp_all

lemma stream_loop_end:
  "(case snd (stream_loop g src) of
      Inl m \<Rightarrow> source_failure src = Some m
    | Inr g' \<Rightarrow> source_failure src = None \<and> full_text g' = full_text g @ delivered_text src)"
proof (induction g src rule: stream_loop.induct)
  case (4 g content rest)
  show ?case
  proof (cases "content = []")
    case True
    with 4 show ?thesis by (auto split: sum.splits)
  next
    case False
    obtain evs g' where pc: "process_chunk g content = (evs, g')" by (cases "process_chunk g content")
    obtain evs' r where sl: "stream_loop g' rest = (evs', r)" by (cases "stream_loop g' rest")
    have ft: "full_text g' = full_text g @ content"
      using process_chunk_full_text [of g content] pc by simp
    from 4(2) [OF False pc [symmetric] refl] sl ft
    show ?thesis using False pc sl by (auto split: sum.splits)
  qed
qed (auto split: sum.splits)

text \<open>
  The frame of a run: the start event, then events none of which is a start, a
  \<open>complete\<close> or an \<open>error\<close>, then one terminal event, which is the error with the
  exception's message if the source raises and \<open>complete\<close> with all the text delivered
  if the source is exhausted.
\<close>

lemma stream_explanation_frame:
  "\<exists>body final.
     stream_explanation question subject src = Start question ''teaching'' # body @ [final] \<and>
     filter is_terminal body = [] \<and> filter is_start body = [] \<and>
     final = (case source_failure src of
                Some m \<Rightarrow> Error m
              | None \<Rightarrow> Complete (delivered_text src) ''finished'')"
proof -
  obtain evs r where sl: "stream_loop gen_init src = (evs, r)" by (cases "stream_loop gen_init src")
  have plain: "filter is_terminal evs = []" "filter is_start evs = []"
    using stream_loop_plain [where g = gen_init and src = src] sl by simp_all
  show ?thesis
  proof (cases r)
    case (Inl m)
    then have "source_failure src = Some m"
      using stream_loop_end [where g = gen_init and src = src] sl by simp
    then show ?thesis
      using sl Inl plain by (simp add: stream_explanation_def)
  next
    case (Inr g)
    then have e: "source_failure src = None" "full_text g = delivered_text src"
      using stream_loop_end [where g = gen_init and src = src] sl by (simp_all add: gen_init_def)
    let ?flush = "if word_buffer g \<noteq> [] then [Text (word_buffer g) False] else []"
    have "stream_explanation question subject src =
            Start question ''teaching'' # (evs @ ?flush) @ [Complete (full_text g) ''finished'']"
      using sl Inr by (simp add: stream_explanation_def)
    moreover have "filter is_terminal (evs @ ?flush) = []" "filter is_start (evs @ ?flush) = []"
      using plain by simp_all
    ultimately show ?thesis
      using e by (intro exI [of _ "evs @ ?flush"] exI [of _ "Complete (full_text g) ''finished''"]) simp
  qed
qed

lemmas run_simps = stream_explanation_def gen_init_def process_chunk_def has_sentence_mark_def
  Let_def split_def isspace_def whitespace_def word_events_def check_emphasis_def strip_chars_def
  lower_def lower_char_def upper_chars_def lower_chars_def high_importance_def
  medium_importance_def cue_events_def extract_visual_cue_def visual_marker_def
  visual_triggers_def contains_def find_from_def strip_def

text \<open>
  C3. The run has the frame the claim describes, but the text event flushed at
  exhaustion is not the remaining partial word. The source delivers "hello " and then
  "world": the text delivered is "hello world", its partial word, the characters after
  the last whitespace, is "world", and the word "hello" was complete when its fragment
  ended. \<open>split\<close> drops the whitespace that ended it and \<open>words[-1]\<close> keeps it in
  the word buffer, where the next fragment is appended to it: the run emits no text event
  for "hello" and flushes the single text event "helloworld".
\<close>

theorem flush_glues_words:
  "delivered_text [Content (Some ''hello ''), Content (Some ''world'')] = ''hello world'' \<and>
   partial_word ''hello world'' = ''world'' \<and>
   stream_explanation ''Say hello'' None [Content (Some ''hello ''), Content (Some ''world'')] =
     [Start ''Say hello'' ''teaching'', Text ''helloworld'' False,
      Complete ''hello world'' ''finished'']"
  by (simp add: run_simps partial_word_def)

section \<open>Sentence boundaries\<close>

text \<open>
  C5. The test of the loop is whether the sentence buffer contains \<open>.\<close>, \<open>!\<close> or
  \<open>?\<close>, not whether it ends in one. After the fragment "No. The apple" the buffer does
  not end in a sentence mark, yet it is scanned and cleared and the pause is emitted; the
  words "The apple" are gone from the buffer when the sentence ends with the next
  fragment, so the buffer scanned there is " falls." and the run emits no visual cue,
  although the sentence "The apple falls." holds the trigger "apple falls".
\<close>

theorem pause_inside_sentence:
  "\<not> ends_in_sentence_mark ''No. The apple'' \<and>
   process_chunk gen_init ''No. The apple'' =
     ([Text ''No. '' True, Text ''The '' True, Pause 300],
      \<lparr>full_text = ''No. The apple'', current_sentence = [], word_buffer = ''apple''\<rparr>) \<and>
   stream_explanation ''Why?'' None
       [Content (Some ''No. The apple''), Content (Some '' falls.'')] =
     [Start ''Why?'' ''teaching'', Text ''No. '' True, Text ''The '' True, Pause 300,
      Text ''apple '' True, Pause 300, Text ''falls.'' False,
      Complete ''No. The apple falls.'' ''finished''] \<and>
   extract_visual_cue ''The apple falls.'' =
     Some \<lparr>action = ''animate'', data = [(''type'', ''apple_falling'')]\<rparr>"
  by (simp add: run_simps ends_in_sentence_mark_def)

section \<open>Emphasis\<close>

text \<open>
  C7. \<open>_check_emphasis\<close> gives "high" for "gravity" and "medium" for "example",
  whatever the case and the surrounding \<open>.,!?\<close>, and nothing for an unlisted word. But
  the word left in the word buffer when the source is exhausted is flushed without the
  check that every word emitted inside the loop gets: in this run the emitted text ends
  with the word "gravity" and no emphasis event is emitted.
\<close>

theorem final_word_without_emphasis:
  "check_emphasis ''gravity'' = Some ''high'' \<and>
   check_emphasis ''Gravity!'' = Some ''high'' \<and>
   check_emphasis ''example'' = Some ''medium'' \<and>
   check_emphasis ''apple'' = None \<and>
   stream_explanation ''What pulls us down?'' None
       [Content (Some ''It is''), Content (Some '' gravity'')] =
     [Start ''What pulls us down?'' ''teaching'', Text ''It '' True, Text ''is '' True,
      Text ''gravity'' False, Complete ''It is gravity'' ''finished'']"
  by (simp add: run_simps)

section \<open>The registry invariant\<close>

text \<open>
  \<open>disconnect\<close>, \<open>broadcast_to_session\<close> and the loop over the marked listeners
  call one another. On a well-formed registry each of them returns, given a depth of at
  least the size of the session, keeps the registry well formed and only shrinks it.
\<close>

lemma registry_okI:
  assumes "sessions_ok st"
    and "\<And>sid ls w. active_sessions st sid = Some ls \<Longrightarrow> w \<in> set ls \<Longrightarrow>
           w \<notin> P \<and> (\<exists>info. user_data st w = Some info \<and> session_id info = sid)"
    and "\<And>w info. user_data st w = Some info \<Longrightarrow> w \<notin> P \<Longrightarrow>
           \<exists>ls. active_sessions st (session_id info) = Some ls \<and> w \<in> set ls"
    and "P \<subseteq> dom (user_data st)"
  shows "registry_ok P st"
  unfolding registry_ok_def using assms by blast

lemma registry_ok_sessions: "registry_ok P st \<Longrightarrow> sessions_ok st"
  by (simp add: registry_ok_def)

lemma registry_ok_member:
  "registry_ok P st \<Longrightarrow> active_sessions st sid = Some ls \<Longrightarrow> w \<in> set ls \<Longrightarrow>
     w \<notin> P \<and> (\<exists>info. user_data st w = Some info \<and> session_id info = sid)"
  unfolding registry_ok_def by blast

lemma registry_ok_registered:
  "registry_ok P st \<Longrightarrow> user_data st w = Some info \<Longrightarrow> w \<notin> P \<Longrightarrow>
     \<exists>ls. active_sessions st (session_id info) = Some ls \<and> w \<in> set ls"
  unfolding registry_ok_def by blast

lemma registry_ok_pending: "registry_ok P st \<Longrightarrow> P \<subseteq> dom (user_data st)"
  by (simp add: registry_ok_def)

lemma sessions_ok_session:
  "sessions_ok st \<Longrightarrow> active_sessions st sid = Some ls \<Longrightarrow>
     ls \<noteq> [] \<and> distinct ls \<and>
     (\<exists>ss. session_states st sid = Some ss \<and> participants ss = int (length ls))"
  unfolding sessions_ok_def by (metis distinct_card)

lemma registry_ok_sent [simp]: "registry_ok P (st\<lparr>sent := x\<rparr>) = registry_ok P st"
  by (simp add: registry_ok_def sessions_ok_def)

lemma members_sent [simp]: "members (st\<lparr>sent := x\<rparr>) = members st"
  by (simp add: members_def fun_eq_iff)

lemma length_removeAll_distinct:
  "distinct ls \<Longrightarrow> w \<in> set ls \<Longrightarrow> Suc (length (removeAll w ls)) = length ls"
  by (induction ls) auto

lemma sessions_okI:
  assumes "dom (session_states st) = dom (active_sessions st)"
    and "\<And>sid ls. active_sessions st sid = Some ls \<Longrightarrow>
           ls \<noteq> [] \<and> distinct ls \<and>
           (\<exists>ss. session_states st sid = Some ss \<and> participants ss = int (card (set ls)))"
  shows "sessions_ok st"
  unfolding sessions_ok_def using assms by blast

lemma sessions_ok_discard:
  assumes so: "sessions_ok st"
    and ls: "active_sessions st sid = Some ls" and ss: "session_states st sid = Some ss"
    and mem: "w \<in> set ls" and ne: "removeAll w ls \<noteq> []"
  shows "sessions_ok
           (st\<lparr>active_sessions := (active_sessions st)(sid \<mapsto> removeAll w ls),
               session_states := (session_states st)
                 (sid \<mapsto> ss\<lparr>participants := participants ss - 1\<rparr>)\<rparr>)"
    (is "sessions_ok ?st'")
proof (rule sessions_okI)
  from sessions_ok_session [OF so ls] ss
  have d: "distinct ls" and p: "participants ss = int (length ls)" by auto
  have "distinct (removeAll w ls)"
    using d by (simp add: distinct_removeAll)
  then have "card (set (removeAll w ls)) = length (removeAll w ls)"
    by (rule distinct_card)
  with length_removeAll_distinct [OF d mem] p
  have c: "participants ss - 1 = int (card (set (removeAll w ls)))"
    by linarith
  have dom: "dom (session_states st) = dom (active_sessions st)"
    using so by (simp add: sessions_ok_def)
  show "dom (session_states ?st') = dom (active_sessions ?st')"
    using dom by simp
  fix s l
  assume a: "active_sessions ?st' s = Some l"
  show "l \<noteq> [] \<and> distinct l \<and>
          (\<exists>ss'. session_states ?st' s = Some ss' \<and> participants ss' = int (card (set l)))"
  proof (cases "s = sid")
    case True
    with a have "l = removeAll w ls" by simp
    with True ne d c show ?thesis by (simp add: distinct_removeAll)
  next
    case False
    with a have "active_sessions st s = Some l" by simp
    with so False show ?thesis by (simp add: sessions_ok_def)
  qed
qed

lemma sessions_ok_delete:
  assumes so: "sessions_ok st"
  shows "sessions_ok
           (st\<lparr>active_sessions := (active_sessions st)(sid := None),
               session_states := (session_states st)(sid := None)\<rparr>)"
  using so unfolding sessions_ok_def by (auto split: if_splits)

lemma sessions_ok_user_data [simp]:
  "sessions_ok (st\<lparr>user_data := u\<rparr>) = sessions_ok st"
  by (simp add: sessions_ok_def)

lemma ok_after_discard:
  assumes ok: "registry_ok P st" and wP: "w \<notin> P" and w: "user_data st w = Some info"
    and ls: "active_sessions st (session_id info) = Some ls"
    and ss: "session_states st (session_id info) = Some ss"
    and ne: "removeAll w ls \<noteq> []"
  shows "registry_ok (insert w P)
           (st\<lparr>active_sessions := (active_sessions st)(session_id info \<mapsto> removeAll w ls),
               session_states := (session_states st)
                 (session_id info \<mapsto> ss\<lparr>participants := participants ss - 1\<rparr>)\<rparr>)"
    (is "registry_ok _ ?st'")
proof (rule registry_okI)
  have mem: "w \<in> set ls"
    using registry_ok_registered [OF ok w wP] ls by simp
  show "sessions_ok ?st'"
    by (rule sessions_ok_discard [OF registry_ok_sessions [OF ok] ls ss mem ne])
next
  fix s l x
  assume a: "active_sessions ?st' s = Some l" and x: "x \<in> set l"
  show "x \<notin> insert w P \<and> (\<exists>i. user_data ?st' x = Some i \<and> session_id i = s)"
  proof (cases "s = session_id info")
    case True
    with a x have "x \<in> set ls" "x \<noteq> w" by auto
    with registry_ok_member [OF ok ls, of x] True show ?thesis by simp
  next
    case False
    with a have a': "active_sessions st s = Some l" by simp
    from registry_ok_member [OF ok a' x] w False show ?thesis by auto
  qed
next
  fix x i
  assume u: "user_data ?st' x = Some i" and x: "x \<notin> insert w P"
  then have u': "user_data st x = Some i" and xP: "x \<notin> P" and xw: "x \<noteq> w" by simp_all
  from registry_ok_registered [OF ok u' xP]
  obtain l where l: "active_sessions st (session_id i) = Some l" "x \<in> set l" by blast
  show "\<exists>l. active_sessions ?st' (session_id i) = Some l \<and> x \<in> set l"
    using l ls xw by (cases "session_id i = session_id info") auto
next
  show "insert w P \<subseteq> dom (user_data ?st')"
    using registry_ok_pending [OF ok] w by auto
qed

lemma ok_after_last:
  assumes ok: "registry_ok P st" and wP: "w \<notin> P" and w: "user_data st w = Some info"
    and ls: "active_sessions st (session_id info) = Some ls"
    and ne: "removeAll w ls = []"
  shows "registry_ok P
           (st\<lparr>active_sessions := (active_sessions st)(session_id info := None),
               session_states := (session_states st)(session_id info := None),
               user_data := (user_data st)(w := None)\<rparr>)"
    (is "registry_ok _ ?st'")
proof (rule registry_okI)
  have only: "x = w" if "x \<in> set ls" for x
  proof (rule ccontr)
    assume "x \<noteq> w"
    with that have "x \<in> set (removeAll w ls)" by simp
    with ne show False by simp
  qed
  show "sessions_ok ?st'"
    using sessions_ok_delete [OF registry_ok_sessions [OF ok], of "session_id info"] by simp
  {
    fix s l x
    assume a: "active_sessions ?st' s = Some l" and x: "x \<in> set l"
    then have s: "s \<noteq> session_id info" and a': "active_sessions st s = Some l"
      by (auto split: if_splits)
    from registry_ok_member [OF ok a' x] w s
    show "x \<notin> P \<and> (\<exists>i. user_data ?st' x = Some i \<and> session_id i = s)" by auto
  next
    fix x i
    assume u: "user_data ?st' x = Some i" and xP: "x \<notin> P"
    then have u': "user_data st x = Some i" and xw: "x \<noteq> w" by (auto split: if_splits)
    from registry_ok_registered [OF ok u' xP]
    obtain l where l: "active_sessions st (session_id i) = Some l" "x \<in> set l" by blast
    have "session_id i \<noteq> session_id info"
      using l ls only xw by auto
    then show "\<exists>l. active_sessions ?st' (session_id i) = Some l \<and> x \<in> set l"
      using l by simp
  }
  show "P \<subseteq> dom (user_data ?st')"
    using registry_ok_pending [OF ok] wP by auto
qed

lemma ok_after_unregister:
  assumes ok: "registry_ok (insert w P) st" and wP: "w \<notin> P"
  shows "registry_ok P (st\<lparr>user_data := (user_data st)(w := None)\<rparr>)"
    (is "registry_ok _ ?st'")
proof (rule registry_okI)
  show "sessions_ok ?st'"
    using registry_ok_sessions [OF ok] by simp
next
  fix s l x
  assume a: "active_sessions ?st' s = Some l" and x: "x \<in> set l"
  then have a': "active_sessions st s = Some l" by simp
  from registry_ok_member [OF ok a' x]
  show "x \<notin> P \<and> (\<exists>i. user_data ?st' x = Some i \<and> session_id i = s)" by auto
next
  fix x i
  assume u: "user_data ?st' x = Some i" and xP: "x \<notin> P"
  then have u': "user_data st x = Some i" and xw: "x \<notin> insert w P" by (auto split: if_splits)
  from registry_ok_registered [OF ok u' xw]
  show "\<exists>l. active_sessions ?st' (session_id i) = Some l \<and> x \<in> set l" by simp
next
  show "P \<subseteq> dom (user_data ?st')"
    using registry_ok_pending [OF ok] wP by auto
qed

lemma shrinks_user_data:
  "shrinks e K st st' \<Longrightarrow> user_data st' x = None \<or> user_data st' x = user_data st x"
  by (simp add: shrinks_def)

lemma shrinks_members:
  "shrinks e K st st' \<Longrightarrow> set (members st' s) \<subseteq> set (members st s)"
  by (simp add: shrinks_def)

lemma shrinks_working:
  "shrinks e K st st' \<Longrightarrow> x \<notin> K \<Longrightarrow> \<not> send_fails e x \<Longrightarrow>
     user_data st' x = user_data st x \<and>
     (x \<in> set (members st s) \<longrightarrow> x \<in> set (members st' s))"
  by (simp add: shrinks_def)

lemma shrinks_sent:
  "shrinks e K st st' \<Longrightarrow>
     \<exists>rest. sent st' = sent st @ rest \<and> (\<forall>p\<in>set rest. is_user_left (snd p))"
  by (simp add: shrinks_def)

lemma shrinks_refl: "shrinks e K st st"
  by (simp add: shrinks_def)

lemma shrinks_trans:
  assumes a: "shrinks e K st st1" and b: "shrinks e K' st1 st2"
  shows "shrinks e (K \<union> K') st st2"
  unfolding shrinks_def
proof (intro conjI allI impI)
  fix x
  show "user_data st2 x = None \<or> user_data st2 x = user_data st x"
    using shrinks_user_data [OF a, of x] shrinks_user_data [OF b, of x] by auto
next
  fix s
  show "set (members st2 s) \<subseteq> set (members st s)"
    using shrinks_members [OF a, of s] shrinks_members [OF b, of s] by blast
next
  fix x
  assume x: "x \<notin> K \<union> K'" "\<not> send_fails e x"
  then show "user_data st2 x = user_data st x"
    using shrinks_working [OF a, of x] shrinks_working [OF b, of x] by simp
next
  fix x s
  assume x: "x \<notin> K \<union> K'" "\<not> send_fails e x" "x \<in> set (members st s)"
  then show "x \<in> set (members st2 s)"
    using shrinks_working [OF a, of x s] shrinks_working [OF b, of x s] by simp
next
  from shrinks_sent [OF a] obtain r1
    where r1: "sent st1 = sent st @ r1" "\<forall>p\<in>set r1. is_user_left (snd p)" by blast
  from shrinks_sent [OF b] obtain r2
    where r2: "sent st2 = sent st1 @ r2" "\<forall>p\<in>set r2. is_user_left (snd p)" by blast
  from r1 r2 have "sent st2 = sent st @ (r1 @ r2) \<and> (\<forall>p\<in>set (r1 @ r2). is_user_left (snd p))"
    by auto
  then show "\<exists>rest. sent st2 = sent st @ rest \<and> (\<forall>p\<in>set rest. is_user_left (snd p))" ..
qed

lemma shrinks_failing:
  assumes a: "shrinks e K st st'" and f: "\<forall>x\<in>K. send_fails e x"
  shows "shrinks e {} st st'"
  using a f unfolding shrinks_def by blast

lemma shrinks_notices:
  assumes a: "shrinks e K (st\<lparr>sent := sent st @ xs\<rparr>) st'"
    and n: "\<forall>p\<in>set xs. is_user_left (snd p)"
  shows "shrinks e K st st'"
proof -
  from shrinks_sent [OF a] obtain r
    where r: "sent st' = (sent st @ xs) @ r" "\<forall>p\<in>set r. is_user_left (snd p)" by auto
  with n have "sent st' = sent st @ (xs @ r) \<and> (\<forall>p\<in>set (xs @ r). is_user_left (snd p))"
    by auto
  then have "\<exists>rest. sent st' = sent st @ rest \<and> (\<forall>p\<in>set rest. is_user_left (snd p))" ..
  with a show ?thesis unfolding shrinks_def by simp
qed

lemma shrinks_discard:
  assumes "active_sessions st sid = Some ls"
  shows "shrinks e {w} st
           (st\<lparr>active_sessions := (active_sessions st)(sid \<mapsto> removeAll w ls),
               session_states := t\<rparr>)"
  using assms by (auto simp: shrinks_def members_def)

lemma shrinks_last:
  assumes "active_sessions st sid = Some ls" and "removeAll w ls = []"
  shows "shrinks e {w} st
           (st\<lparr>active_sessions := (active_sessions st)(sid := None),
               session_states := t, user_data := (user_data st)(w := None)\<rparr>)"
proof -
  have only: "x = w" if "x \<in> set ls" for x
  proof (rule ccontr)
    assume "x \<noteq> w"
    with that have "x \<in> set (removeAll w ls)" by simp
    with assms(2) show False by simp
  qed
  show ?thesis
    using assms(1) only by (auto simp: shrinks_def members_def)
qed

lemma shrinks_unregister:
  "shrinks e {w} st (st\<lparr>user_data := (user_data st)(w := None)\<rparr>)"
  by (auto simp: shrinks_def members_def)

lemma sessions_ok_distinct: "sessions_ok st \<Longrightarrow> distinct (members st s)"
  by (auto simp: sessions_ok_def members_def split: option.splits)

lemma members_length_mono:
  assumes "sessions_ok st'" and "set (members st' s) \<subseteq> set (members st s)"
  shows "length (members st' s) \<le> length (members st s)"
proof -
  have "length (members st' s) = card (set (members st' s))"
    using sessions_ok_distinct [OF assms(1), of s] by (simp add: distinct_card)
  also have "\<dots> \<le> card (set (members st s))"
    using assms(2) by (simp add: card_mono)
  also have "\<dots> \<le> length (members st s)"
    by (rule card_length)
  finally show ?thesis .
qed

lemma disconnect_last:
  assumes "user_data st w = Some info"
    and "active_sessions st (session_id info) = Some ls"
    and "session_states st (session_id info) = Some ss"
    and "removeAll w ls = []"
  shows "disconnect n e w st =
           Some (Inr (st\<lparr>active_sessions := (active_sessions st)(session_id info := None),
                         session_states := (session_states st)(session_id info := None),
                         user_data := (user_data st)(w := None)\<rparr>))"
  using assms by (simp add: disconnect.simps Let_def)

lemma disconnect_more:
  assumes "user_data st w = Some info"
    and "active_sessions st (session_id info) = Some ls"
    and "session_states st (session_id info) = Some ss"
    and "removeAll w ls \<noteq> []"
  shows "disconnect (Suc m) e w st =
           (case broadcast_to_session m e (session_id info) (UserLeft (participants ss - 1)) None
                   (st\<lparr>active_sessions := (active_sessions st)(session_id info \<mapsto> removeAll w ls),
                       session_states := (session_states st)
                         (session_id info \<mapsto> ss\<lparr>participants := participants ss - 1\<rparr>)\<rparr>)
            of
              Some (Inr st3) \<Rightarrow>
                (case user_data st3 w of
                   None \<Rightarrow> Some (Inl (KeyError, st3))
                 | Some _ \<Rightarrow> Some (Inr (st3\<lparr>user_data := (user_data st3)(w := None)\<rparr>)))
            | r \<Rightarrow> r)"
  using assms by (simp add: disconnect.simps Let_def)

lemma broadcast_unfold:
  "broadcast_to_session n e sid msg x st =
     disconnect_all n e (filter (send_fails e) (filter (\<lambda>w. Some w \<noteq> x) (members st sid)))
       (st\<lparr>sent := sent st @ map (\<lambda>w. (w, msg)) (filter (\<lambda>w. Some w \<noteq> x) (members st sid))\<rparr>)"
  by (simp add: broadcast_to_session.simps members_def Let_def split: option.splits)


lemma disconnect_step:
  assumes bc: "\<And>k sid c s Q. n = Suc k \<Longrightarrow> registry_ok Q s \<Longrightarrow> length (members s sid) \<le> Suc k \<Longrightarrow>
                 \<exists>s'. broadcast_to_session k e sid (UserLeft c) None s = Some (Inr s') \<and>
                      registry_ok Q s' \<and> shrinks e {} s s'"
    and ok: "registry_ok P st" and wP: "w \<notin> P"
    and bound: "\<forall>info. user_data st w = Some info \<longrightarrow>
                  length (members st (session_id info)) \<le> Suc n"
  shows "\<exists>st'. disconnect n e w st = Some (Inr st') \<and> registry_ok P st' \<and> shrinks e {w} st st'"
proof (cases "user_data st w")
  case None
  then have "disconnect n e w st = Some (Inr st)"
    by (rule disconnect_not_registered)
  with ok show ?thesis
    using shrinks_refl by blast
next
  case (Some info)
  let ?sid = "session_id info"
  from registry_ok_registered [OF ok Some wP]
  obtain ls where ls: "active_sessions st ?sid = Some ls" and mem: "w \<in> set ls" by blast
  from sessions_ok_session [OF registry_ok_sessions [OF ok] ls]
  obtain ss where ss: "session_states st ?sid = Some ss" and d: "distinct ls" by blast
  show ?thesis
  proof (cases "removeAll w ls = []")
    case True
    let ?st' = "st\<lparr>active_sessions := (active_sessions st)(?sid := None),
                   session_states := (session_states st)(?sid := None),
                   user_data := (user_data st)(w := None)\<rparr>"
    have "disconnect n e w st = Some (Inr ?st')"
      by (rule disconnect_last [OF Some ls ss True])
    moreover have "registry_ok P ?st'"
      by (rule ok_after_last [OF ok wP Some ls True])
    moreover have "shrinks e {w} st ?st'"
      by (rule shrinks_last [OF ls True])
    ultimately show ?thesis by blast
  next
    case False
    have "length ls \<le> Suc n"
      using bound Some ls by (simp add: members_def)
    with length_removeAll_distinct [OF d mem] have le: "length (removeAll w ls) \<le> n"
      by simp
    from False have "length (removeAll w ls) \<noteq> 0" by simp
    with le obtain k where n: "n = Suc k" by (cases n) auto
    let ?st2 = "st\<lparr>active_sessions := (active_sessions st)(?sid \<mapsto> removeAll w ls),
                   session_states := (session_states st)
                     (?sid \<mapsto> ss\<lparr>participants := participants ss - 1\<rparr>)\<rparr>"
    have ok2: "registry_ok (insert w P) ?st2"
      by (rule ok_after_discard [OF ok wP Some ls ss False])
    have "length (members ?st2 ?sid) \<le> Suc k"
      using le n by (simp add: members_def)
    from bc [OF n ok2 this, of "participants ss - 1"]
    obtain st3 where b3: "broadcast_to_session k e ?sid (UserLeft (participants ss - 1)) None ?st2 =
                            Some (Inr st3)"
      and ok3: "registry_ok (insert w P) st3" and sh3: "shrinks e {} ?st2 st3" by blast
    from registry_ok_pending [OF ok3] obtain i where u3: "user_data st3 w = Some i" by auto
    let ?st' = "st3\<lparr>user_data := (user_data st3)(w := None)\<rparr>"
    have "disconnect n e w st = Some (Inr ?st')"
      unfolding n disconnect_more [OF Some ls ss False] b3 using u3 by simp
    moreover have "registry_ok P ?st'"
      by (rule ok_after_unregister [OF ok3 wP])
    moreover have "shrinks e {w} st ?st'"
      using shrinks_trans [OF shrinks_trans [OF shrinks_discard [OF ls, of e w] sh3]
          shrinks_unregister [of e w st3]]
      by simp
    ultimately show ?thesis by blast
  qed
qed

lemma disconnect_all_step:
  assumes dc: "\<And>w s Q. registry_ok Q s \<Longrightarrow> w \<notin> Q \<Longrightarrow>
                 \<forall>info. user_data s w = Some info \<longrightarrow> length (members s (session_id info)) \<le> Suc n \<Longrightarrow>
                 \<exists>s'. disconnect n e w s = Some (Inr s') \<and> registry_ok Q s' \<and> shrinks e {w} s s'"
  shows "registry_ok P st \<Longrightarrow> length (members st sid) \<le> Suc n \<Longrightarrow>
         \<forall>w\<in>set ws. w \<notin> P \<and> (\<forall>info. user_data st w = Some info \<longrightarrow> session_id info = sid) \<Longrightarrow>
         \<exists>st'. disconnect_all n e ws st = Some (Inr st') \<and> registry_ok P st' \<and>
               shrinks e (set ws) st st' \<and> (\<forall>w\<in>set ws. user_data st' w = None)"
proof (induction ws arbitrary: st)
  case Nil
  then show ?case using shrinks_refl by auto
next
  case (Cons w ws)
  have wP: "w \<notin> P" using Cons.prems(3) by simp
  have "\<forall>info. user_data st w = Some info \<longrightarrow> length (members st (session_id info)) \<le> Suc n"
    using Cons.prems(2,3) by auto
  from dc [OF Cons.prems(1) wP this]
  obtain st1 where d1: "disconnect n e w st = Some (Inr st1)"
    and ok1: "registry_ok P st1" and sh1: "shrinks e {w} st st1" by blast
  have u1: "user_data st1 w = None"
    by (rule disconnect_unregisters [OF d1])
  have len1: "length (members st1 sid) \<le> Suc n"
    using members_length_mono [OF registry_ok_sessions [OF ok1] shrinks_members [OF sh1], of sid]
      Cons.prems(2) by simp
  have rest: "\<forall>x\<in>set ws. x \<notin> P \<and> (\<forall>info. user_data st1 x = Some info \<longrightarrow> session_id info = sid)"
  proof
    fix x assume x: "x \<in> set ws"
    then have a: "x \<notin> P" "\<forall>info. user_data st x = Some info \<longrightarrow> session_id info = sid"
      using Cons.prems(3) by simp_all
    show "x \<notin> P \<and> (\<forall>info. user_data st1 x = Some info \<longrightarrow> session_id info = sid)"
      using a shrinks_user_data [OF sh1, of x] by auto
  qed
  from Cons.IH [OF ok1 len1 rest]
  obtain st2 where d2: "disconnect_all n e ws st1 = Some (Inr st2)"
    and ok2: "registry_ok P st2" and sh2: "shrinks e (set ws) st1 st2"
    and u2: "\<forall>x\<in>set ws. user_data st2 x = None" by blast
  have "disconnect_all n e (w # ws) st = Some (Inr st2)"
    using d1 d2 by simp
  moreover have "shrinks e (set (w # ws)) st st2"
    using shrinks_trans [OF sh1 sh2] by simp
  moreover have "user_data st2 w = None"
    using shrinks_user_data [OF sh2, of w] u1 by auto
  ultimately show ?case
    using ok2 u2 by auto
qed

lemma broadcast_step:
  assumes dc: "\<And>w s Q. registry_ok Q s \<Longrightarrow> w \<notin> Q \<Longrightarrow>
                 \<forall>info. user_data s w = Some info \<longrightarrow> length (members s (session_id info)) \<le> Suc n \<Longrightarrow>
                 \<exists>s'. disconnect n e w s = Some (Inr s') \<and> registry_ok Q s' \<and> shrinks e {w} s s'"
    and ok: "registry_ok P st" and bound: "length (members st sid) \<le> Suc n"
  shows "\<exists>st'. broadcast_to_session n e sid msg x st = Some (Inr st') \<and> registry_ok P st' \<and>
           shrinks e {}
             (st\<lparr>sent := sent st @ map (\<lambda>w. (w, msg)) (filter (\<lambda>w. Some w \<noteq> x) (members st sid))\<rparr>) st' \<and>
           (\<forall>w\<in>set (members st sid). Some w \<noteq> x \<longrightarrow> send_fails e w \<longrightarrow> user_data st' w = None)"
proof -
  let ?targets = "filter (\<lambda>w. Some w \<noteq> x) (members st sid)"
  let ?st1 = "st\<lparr>sent := sent st @ map (\<lambda>w. (w, msg)) ?targets\<rparr>"
  let ?ws = "filter (send_fails e) ?targets"
  have ok1: "registry_ok P ?st1" using ok by simp
  have b1: "length (members ?st1 sid) \<le> Suc n" using bound by simp
  have ws: "\<forall>w\<in>set ?ws. w \<notin> P \<and> (\<forall>info. user_data ?st1 w = Some info \<longrightarrow> session_id info = sid)"
  proof
    fix w assume "w \<in> set ?ws"
    then have "w \<in> set (members st sid)" by simp
    then obtain ls where ls: "active_sessions st sid = Some ls" "w \<in> set ls"
      by (cases "active_sessions st sid") (auto simp: members_def)
    from registry_ok_member [OF ok ls]
    show "w \<notin> P \<and> (\<forall>info. user_data ?st1 w = Some info \<longrightarrow> session_id info = sid)"
      by auto
  qed
  from disconnect_all_step [OF dc ok1 b1 ws]
  obtain st' where d: "disconnect_all n e ?ws ?st1 = Some (Inr st')"
    and ok': "registry_ok P st'" and sh: "shrinks e (set ?ws) ?st1 st'"
    and u: "\<forall>w\<in>set ?ws. user_data st' w = None" by blast
  have "broadcast_to_session n e sid msg x st = Some (Inr st')"
    using d by (simp only: broadcast_unfold)
  moreover have "shrinks e {} ?st1 st'"
    by (rule shrinks_failing [OF sh]) simp
  ultimately show ?thesis
    using ok' u by auto
qed

lemma disconnect_ok:
  "registry_ok P st \<Longrightarrow> w \<notin> P \<Longrightarrow>
   \<forall>info. user_data st w = Some info \<longrightarrow> length (members st (session_id info)) \<le> Suc n \<Longrightarrow>
   \<exists>st'. disconnect n e w st = Some (Inr st') \<and> registry_ok P st' \<and> shrinks e {w} st st'"
proof (induction n arbitrary: w st P)
  case 0
  show ?case
    by (rule disconnect_step [OF _ 0(1) 0(2) 0(3)]) simp
next
  case (Suc n)
  show ?case
  proof (rule disconnect_step [OF _ Suc.prems])
    fix k sid c s Q
    assume k: "Suc n = Suc k" and okQ: "registry_ok Q s" and len: "length (members s sid) \<le> Suc k"
    from k have kn: "k = n" by simp
    from broadcast_step [OF Suc.IH okQ, of sid "UserLeft c" None] len kn
    obtain s' where b: "broadcast_to_session n e sid (UserLeft c) None s = Some (Inr s')"
      and ok': "registry_ok Q s'"
      and sh: "shrinks e {}
                 (s\<lparr>sent := sent s @ map (\<lambda>w. (w, UserLeft c))
                    (filter (\<lambda>w. Some w \<noteq> None) (members s sid))\<rparr>) s'"
      by blast
    have "shrinks e {} s s'"
      by (rule shrinks_notices [OF sh]) auto
    with b ok' kn
    show "\<exists>s'. broadcast_to_session k e sid (UserLeft c) None s = Some (Inr s') \<and>
               registry_ok Q s' \<and> shrinks e {} s s'"
      by blast
  qed
qed

lemma broadcast_ok:
  assumes ok: "registry_ok P st" and bound: "length (members st sid) \<le> Suc n"
  shows "\<exists>st'. broadcast_to_session n e sid msg x st = Some (Inr st') \<and> registry_ok P st' \<and>
           shrinks e {}
             (st\<lparr>sent := sent st @ map (\<lambda>w. (w, msg)) (filter (\<lambda>w. Some w \<noteq> x) (members st sid))\<rparr>) st' \<and>
           (\<forall>w\<in>set (members st sid). Some w \<noteq> x \<longrightarrow> send_fails e w \<longrightarrow> user_data st' w = None)"
  by (rule broadcast_step [OF disconnect_ok ok bound])

lemma classroom_ok: "registry_ok {} classroom"
  by (auto simp: registry_ok_def sessions_ok_def classroom_def member_info_def new_session_def
        split: if_splits)

section \<open>Broadcast\<close>



section \<open>Sequences of connect and disconnect\<close>












section \<open>Visual cues in the dispatcher\<close>

lemma get_animation_data_expected: "get_animation_data t = expected_descriptor t"
  by (cases t) (simp_all add: get_animation_data_def expected_descriptor_def animations_def)

lemma followup_by_followups:
  "(case ev of
      VisualCue act dat \<Rightarrow>
        (case process_visual_cue act dat of Some v \<Rightarrow> B v | None \<Rightarrow> D)
    | _ \<Rightarrow> D) =
   (case followups ev of [] \<Rightarrow> D | v # vs \<Rightarrow> B v)"
  by (cases ev)
     (simp_all add: followups_def process_visual_cue_def Let_def get_animation_data_expected)

lemma followups_short: "followups ev = [] \<or> (\<exists>v. followups ev = [v] \<and> \<not> is_user_left v)"
  by (cases ev) (simp_all add: followups_def)

lemma stream_events_step:
  "stream_events n e sid (ev # rest) st =
     and_then (broadcast_to_session n e sid ev None st) (\<lambda>st1.
     and_then (case followups ev of
                 [] \<Rightarrow> Some (Inr st1)
               | v # vs \<Rightarrow> broadcast_to_session n e sid v None st1)
       (stream_events n e sid rest))"
  by (simp only: stream_events.simps followup_by_followups)

lemma fan_out_received:
  "distinct xs \<Longrightarrow> w \<in> set xs \<Longrightarrow> \<not> is_user_left msg \<Longrightarrow>
   map snd (filter (\<lambda>p. fst p = w \<and> \<not> is_user_left (snd p)) (map (\<lambda>x. (x, msg)) xs)) = [msg]"
proof (induction xs)
  case Nil
  then show ?case by simp
next
  case (Cons a xs)
  show ?case
  proof (cases "a = w")
    case True
    with Cons.prems have "w \<notin> set xs" by simp
    then have "filter (\<lambda>p. fst p = w \<and> \<not> is_user_left (snd p)) (map (\<lambda>x. (x, msg)) xs) = []"
      by (auto simp: filter_empty_conv)
    with True Cons.prems show ?thesis by simp
  next
    case False
    with Cons show ?thesis by simp
  qed
qed

lemma notices_received:
  "\<forall>p\<in>set r. is_user_left (snd p) \<Longrightarrow>
   filter (\<lambda>p. fst p = w \<and> \<not> is_user_left (snd p)) r = []"
  by (auto simp: filter_empty_conv)

lemma broadcast_received:
  assumes ok: "registry_ok {} st" and bound: "length (members st sid) \<le> Suc n"
    and mem: "w \<in> set (members st sid)" and works: "\<not> send_fails e w"
    and msg: "\<not> is_user_left msg"
  shows "\<exists>st'. broadcast_to_session n e sid msg None st = Some (Inr st') \<and>
           registry_ok {} st' \<and> length (members st' sid) \<le> Suc n \<and>
           w \<in> set (members st' sid) \<and> received w st' = received w st @ [msg]"
proof -
  let ?fan = "map (\<lambda>x. (x, msg)) (filter (\<lambda>x. Some x \<noteq> None) (members st sid))"
  let ?st1 = "st\<lparr>sent := sent st @ ?fan\<rparr>"
  from broadcast_ok [OF ok bound, of e msg None]
  obtain st' where b: "broadcast_to_session n e sid msg None st = Some (Inr st')"
    and ok': "registry_ok {} st'" and sh: "shrinks e {} ?st1 st'" by blast
  have len: "length (members st' sid) \<le> Suc n"
    using members_length_mono [OF registry_ok_sessions [OF ok'] shrinks_members [OF sh], of sid]
      bound by simp
  have mem': "w \<in> set (members st' sid)"
    using shrinks_working [OF sh _ works, of sid] mem by simp
  from shrinks_sent [OF sh] obtain r
    where r: "sent st' = (sent st @ ?fan) @ r" "\<forall>p\<in>set r. is_user_left (snd p)" by auto
  have d: "distinct (members st sid)"
    by (rule sessions_ok_distinct [OF registry_ok_sessions [OF ok]])
  have "received w st' = received w st @ [msg]"
    unfolding received_def r(1)
    using fan_out_received [OF d mem msg] notices_received [OF r(2), of w]
    by simp
  with b ok' len mem' show ?thesis by blast
qed

lemma stream_events_received:
  assumes works: "\<not> send_fails e w"
  shows "\<forall>ev\<in>set evs. \<not> is_user_left ev \<Longrightarrow> registry_ok {} st \<Longrightarrow>
         length (members st sid) \<le> Suc n \<Longrightarrow> w \<in> set (members st sid) \<Longrightarrow>
         \<exists>st'. stream_events n e sid evs st = Some (Inr st') \<and> registry_ok {} st' \<and>
               w \<in> set (members st' sid) \<and>
               received w st' = received w st @ concat (map (\<lambda>ev. ev # followups ev) evs)"
proof (induction evs arbitrary: st)
  case Nil
  then show ?case by simp
next
  case (Cons ev evs)
  have ev: "\<not> is_user_left ev" and evs: "\<forall>ev\<in>set evs. \<not> is_user_left ev"
    using Cons.prems(1) by simp_all
  from broadcast_received [OF Cons.prems(2,3,4) works ev]
  obtain st1 where b1: "broadcast_to_session n e sid ev None st = Some (Inr st1)"
    and ok1: "registry_ok {} st1" and len1: "length (members st1 sid) \<le> Suc n"
    and mem1: "w \<in> set (members st1 sid)" and r1: "received w st1 = received w st @ [ev]"
    by blast
  from followups_short [of ev] show ?case
  proof
    assume f: "followups ev = []"
    from Cons.IH [OF evs ok1 len1 mem1]
    obtain st' where s: "stream_events n e sid evs st1 = Some (Inr st')"
      and ok': "registry_ok {} st'" and mem': "w \<in> set (members st' sid)"
      and r': "received w st' = received w st1 @ concat (map (\<lambda>ev. ev # followups ev) evs)"
      by blast
    have "stream_events n e sid (ev # evs) st = Some (Inr st')"
      by (simp add: stream_events_step b1 f s and_then_def del: stream_events.simps)
    with ok' mem' r' r1 f show ?thesis by simp
  next
    assume "\<exists>v. followups ev = [v] \<and> \<not> is_user_left v"
    then obtain v where f: "followups ev = [v]" and v: "\<not> is_user_left v" by blast
    from broadcast_received [OF ok1 len1 mem1 works v]
    obtain st2 where b2: "broadcast_to_session n e sid v None st1 = Some (Inr st2)"
      and ok2: "registry_ok {} st2" and len2: "length (members st2 sid) \<le> Suc n"
      and mem2: "w \<in> set (members st2 sid)" and r2: "received w st2 = received w st1 @ [v]"
      by blast
    from Cons.IH [OF evs ok2 len2 mem2]
    obtain st' where s: "stream_events n e sid evs st2 = Some (Inr st')"
      and ok': "registry_ok {} st'" and mem': "w \<in> set (members st' sid)"
      and r': "received w st' = received w st2 @ concat (map (\<lambda>ev. ev # followups ev) evs)"
      by blast
    have "stream_events n e sid (ev # evs) st = Some (Inr st')"
      by (simp add: stream_events_step b1 b2 f s and_then_def del: stream_events.simps)
    with ok' mem' r' r1 r2 f show ?thesis by simp
  qed
qed

lemma word_events_quiet: "filter is_user_left (word_events w) = []"
  by (simp add: word_events_def split: option.splits)

lemma words_quiet: "filter is_user_left (concat (map word_events ws)) = []"
  by (induction ws) (simp_all add: word_events_quiet)

lemma cue_events_quiet: "filter is_user_left (cue_events s) = []"
  by (simp add: cue_events_def split: option.splits)

lemma process_chunk_quiet: "filter is_user_left (fst (process_chunk g c)) = []"
  by (simp add: process_chunk_def Let_def words_quiet cue_events_quiet split: prod.splits)

lemma stream_loop_quiet: "filter is_user_left (fst (stream_loop g src)) = []"
proof (induction g src rule: stream_loop.induct)
  case (4 g content rest)
  show ?case
  proof (cases "content = []")
    case True
    with 4 show ?thesis by simp
  next
    case False
    obtain evs g' where pc: "process_chunk g content = (evs, g')" by (cases "process_chunk g content")
    obtain evs' r where sl: "stream_loop g' rest = (evs', r)" by (cases "stream_loop g' rest")
    from pc have "filter is_user_left evs = []"
      using process_chunk_quiet [of g content] by simp
    moreover from 4(2) [OF False pc [symmetric] refl] sl
    have "filter is_user_left evs' = []" by simp
    ultimately show ?thesis using False pc sl by simp
  qed
qed simp_all

lemma stream_explanation_quiet:
  "\<forall>ev\<in>set (stream_explanation question subject src). \<not> is_user_left ev"
proof -
  obtain evs r where sl: "stream_loop gen_init src = (evs, r)" by (cases "stream_loop gen_init src")
  have "filter is_user_left evs = []"
    using stream_loop_quiet [of gen_init src] sl by simp
  then have "filter is_user_left (stream_explanation question subject src) = []"
    using sl by (cases r) (simp_all add: stream_explanation_def)
  then show ?thesis by (simp add: filter_empty_conv)
qed

lemma animate_triggers_in_table:
  "list_all (\<lambda>(trigger, cue). action cue \<noteq> ''animate'' \<or>
      (case map_of (data cue) ''type'' of
         Some t \<Rightarrow> map_of animations t \<noteq> None
       | None \<Rightarrow> False)) visual_triggers"
  by (simp add: visual_triggers_def animations_def)

text \<open>
  C6, as the code has it. While the events of a streaming run are driven through a
  session of a well-formed registry, whatever channels are broken, the loop returns and
  every listener of the session whose channel works is sent, \<open>user_left\<close>
  notifications apart, exactly the events of the run in order, each visual cue followed
  by one derived \<open>visual_update\<close> only when its action is "animate" (an animation
  update with the descriptor the static table has for the cue's type, the generic
  descriptor when the type is not in the table) or "show\_visual" (an image update with
  the cue's description, no table lookup). A cue with any other action is followed by
  nothing.
\<close>

theorem visual_cue_followups:
  assumes "registry_ok {} st" and "length (members st sid) \<le> Suc n"
    and "w \<in> set (members st sid)" and "\<not> send_fails e w"
  shows "\<exists>st'. stream_events n e sid (stream_explanation question subject src) st = Some (Inr st') \<and>
           received w st' =
             received w st @
             concat (map (\<lambda>ev. ev # followups ev) (stream_explanation question subject src))"
  using stream_events_received [OF assms(4) stream_explanation_quiet assms(1,2,3)]
  by blast

theorem visual_cue_followups_witness:
  "registry_ok {} classroom \<and> length (members classroom ''abc12345'') \<le> Suc 1 \<and>
   2 \<in> set (members classroom ''abc12345'') \<and> \<not> send_fails broken_env 2 \<and>
   (\<exists>st'. stream_events 1 broken_env ''abc12345''
             (stream_explanation ''What is a pendulum?'' None
                [Content (Some ''The pendulum swings.''), Content (Some '' See the graph.''),
                 Content (Some '' [VISUAL: a clock] ok.'')]) classroom =
             Some (Inr st') \<and>
          received 2 st' =
            [Start ''What is a pendulum?'' ''teaching'',
             Text ''The '' True, Text ''pendulum '' True,
             VisualCue ''animate'' [(''type'', ''pendulum_swing'')],
             VisualUpdateAnimation (Some ''pendulum_swing'')
               (JObj [(''name'', JStr ''Pendulum''), (''duration'', JInt 3000),
                      (''type'', JStr ''pendulum''),
                      (''pivot'', JObj [(''x'', JInt 50), (''y'', JInt 10)]),
                      (''length'', JInt 60), (''amplitude'', JInt 45)]),
             Pause 300,
             Text ''swings. '' True, Text ''See '' True, Text ''the '' True,
             VisualCue ''show_graph'' [(''type'', ''function_graph'')],
             Pause 300,
             Text ''graph. '' True, Text ''[VISUAL: '' True, Text ''a '' True,
             Text ''clock] '' True,
             VisualCue ''show_visual'' [(''description'', ''a clock'')],
             VisualUpdateImage (Some ''a clock''),
             Pause 300, Text ''ok.'' False,
             Complete ''The pendulum swings. See the graph. [VISUAL: a clock] ok.''
               ''finished''])"
proof -
  let ?src = "[Content (Some ''The pendulum swings.''), Content (Some '' See the graph.''),
               Content (Some '' [VISUAL: a clock] ok.'')]"
  have m: "members classroom ''abc12345'' = [1, 2]"
    by (simp add: members_def classroom_def)
  have h2: "length (members classroom ''abc12345'') \<le> Suc 1"
    and h3: "2 \<in> set (members classroom ''abc12345'')"
    unfolding m by simp_all
  have h4: "\<not> send_fails broken_env 2"
    by (simp add: broken_env_def)
  have r0: "received 2 classroom = []"
    by (simp add: received_def classroom_def)
  have run: "concat (map (\<lambda>ev. ev # followups ev)
               (stream_explanation ''What is a pendulum?'' None ?src)) =
            [Start ''What is a pendulum?'' ''teaching'',
             Text ''The '' True, Text ''pendulum '' True,
             VisualCue ''animate'' [(''type'', ''pendulum_swing'')],
             VisualUpdateAnimation (Some ''pendulum_swing'')
               (JObj [(''name'', JStr ''Pendulum''), (''duration'', JInt 3000),
                      (''type'', JStr ''pendulum''),
                      (''pivot'', JObj [(''x'', JInt 50), (''y'', JInt 10)]),
                      (''length'', JInt 60), (''amplitude'', JInt 45)]),
             Pause 300,
             Text ''swings. '' True, Text ''See '' True, Text ''the '' True,
             VisualCue ''show_graph'' [(''type'', ''function_graph'')],
             Pause 300,
             Text ''graph. '' True, Text ''[VISUAL: '' True, Text ''a '' True,
             Text ''clock] '' True,
             VisualCue ''show_visual'' [(''description'', ''a clock'')],
             VisualUpdateImage (Some ''a clock''),
             Pause 300, Text ''ok.'' False,
             Complete ''The pendulum swings. See the graph. [VISUAL: a clock] ok.''
               ''finished'']"
    by (simp add: run_simps followups_def expected_descriptor_def)
  show ?thesis
    using classroom_ok h2 h3 h4
      visual_cue_followups [OF classroom_ok h2 h3 h4, of "''What is a pendulum?''" None ?src]
    unfolding r0 run by simp
qed

text \<open>
  The claim as stated fails for the other actions: the sentence "Look at the graph."
  yields a cue with the action "show\_graph", for which \<open>_process_visual_cue\<close> returns
  nothing, and the second listener of the session receives the cue with no
  \<open>visual_update\<close> after it.
\<close>

theorem graph_cue_without_visual_update:
  "process_visual_cue ''show_graph'' [(''type'', ''function_graph'')] = None \<and>
   map_option (\<lambda>st. map snd (filter (\<lambda>(w, m). w = 2) (sent st)))
     (returned (handle_message 0 graph_env 1
        [''type'' \<mapsto> ''ask_question'', ''question'' \<mapsto> ''What is a graph?''] classroom)) =
     Some [TeachingStart ''What is a graph?'' None,
           Start ''What is a graph?'' ''teaching'',
           Text ''Look '' True, Text ''at '' True, Text ''the '' True,
           VisualCue ''show_graph'' [(''type'', ''function_graph'')],
           Pause 300,
           Text ''graph.'' False,
           Complete ''Look at the graph.'' ''finished'',
           TeachingEnd ''Explanation complete. Feel free to ask follow-up questions!'']"
  by code_simp

section \<open>The end of a run whose session is gone\<close>

text \<open>
  C4. The session "abc12345" has one listener, whose channel is broken. Its question makes
  the broadcast of \<open>teaching_start\<close> fail on it, so it is disconnected and the session
  is deleted. At the end of the run, clearing \<open>is_teaching\<close> finds no session entry:
  the assignment raises, the handler of \<open>handle_question\<close> assigns again, and the call
  raises \<open>KeyError\<close> to its caller.
\<close>

theorem teaching_flag_clear_raises:
  "raised (handle_message 0 broken_env 1
     [''type'' \<mapsto> ''ask_question'', ''question'' \<mapsto> ''What is gravity?''] lone_classroom) =
   Some KeyError"
  by code_simp

end
